theory Spec2Isabelle
  imports Main
begin

section \<open>The application state machine (js/utils/state-machine.js)\<close>

text \<open>
  The machine is a JavaScript object whose field \<open>this.state\<close> refers to a mutable
  \<open>AppState\<close> object; the \<open>error\<close> field of that object refers to an \<open>ErrorState\<close>
  object and \<open>webcamStream\<close> to a browser \<open>MediaStream\<close>. Object identity matters for
  what \<open>getState\<close> and the change notification hand out, so objects live in an explicit
  store indexed by references, and the transition actions update the store in place as
  the source does.
\<close>

datatype ViewState = Permission | Welcome | Loading | Runtime | Error | Image_upload

datatype RuntimeState = Idle | Warming | Running | Paused | Recovering | Failed

datatype LoadingPhase = Loading_model | Loading_wgpu | Warming_up | Complete

type_synonym ref = nat

text \<open>
  A recovery handler is a closure. The machine itself builds two kinds,
  \<open>() => this.dispatch(ev)\<close> and \<open>() => window.location.reload()\<close>; a handler that
  arrives inside a \<open>FATAL_ERROR\<close> payload is the caller's own and opaque.
\<close>

datatype handler = Dispatch_handler string | Reload_handler | Supplied_handler nat

text \<open>
  The \<open>recoverAction\<close> object is kept inside its error record; no method of the machine
  writes to either after building them.
\<close>

record RecoverAction =
  label :: string
  handler :: handler

record ErrorState =
  code :: string
  message :: string
  technical :: "string option"
  recoverAction :: "RecoverAction option"

record AppState =
  viewState :: ViewState
  runtimeState :: RuntimeState
  loadingPhase :: LoadingPhase
  webcamStream :: "ref option"
  isVideoReady :: bool
  hasWebGPU :: bool
  error :: "ref option"

text \<open>The event payload \<open>data\<close>: an object of which the actions read these properties.\<close>

record payload =
  d_stream :: "ref option"
  d_message :: "string option"
  d_technical :: "string option"
  d_reason :: "string option"
  d_error :: "string option"
  d_code :: "string option"
  d_recoverAction :: "RecoverAction option"

definition no_data :: payload where
  "no_data = \<lparr>d_stream = None, d_message = None, d_technical = None, d_reason = None,
     d_error = None, d_code = None, d_recoverAction = None\<rparr>"

text \<open>\<open>Partial<AppState>\<close>: the argument of the constructor and of \<open>setState\<close>.\<close>

record updates =
  u_viewState :: "ViewState option"
  u_runtimeState :: "RuntimeState option"
  u_loadingPhase :: "LoadingPhase option"
  u_webcamStream :: "ref option option"
  u_isVideoReady :: "bool option"
  u_hasWebGPU :: "bool option"
  u_error :: "ref option option"

definition no_updates :: updates where
  "no_updates = \<lparr>u_viewState = None, u_runtimeState = None, u_loadingPhase = None,
     u_webcamStream = None, u_isVideoReady = None, u_hasWebGPU = None, u_error = None\<rparr>"

text \<open>The \<open>detail\<close> of a \<open>statechange\<close> event, as \<open>dispatch\<close> and as \<open>setState\<close> build it.\<close>

datatype notification =
    Transition_change (n_state: ref) (n_prevState: ref) string payload
  | Update_change (n_state: ref) (n_prevState: ref) updates

text \<open>
  The \<open>readyState\<close> of a media track; \<open>track.stop()\<close> is what makes a live track ended.
\<close>

datatype track_state = Live | Ended

text \<open>
  The machine with the part of the JavaScript heap it works on: \<open>state\<close> is the
  reference \<open>this.state\<close>; \<open>app_objs\<close>, \<open>err_objs\<close> and \<open>stream_objs\<close> hold the
  \<open>AppState\<close> objects, the \<open>ErrorState\<close> objects and the tracks of the media streams;
  \<open>next_ref\<close> is the next fresh reference; \<open>emitted\<close> lists the \<open>statechange\<close> events
  handed to the listeners, oldest first. The table \<open>this.transitions\<close> is the constant
  \<open>defineTransitions\<close> below.
\<close>

record StateMachine =
  state :: ref
  app_objs :: "ref \<Rightarrow> AppState"
  err_objs :: "ref \<Rightarrow> ErrorState"
  stream_objs :: "ref \<Rightarrow> track_state list"
  next_ref :: ref
  emitted :: "notification list"

definition cur :: "StateMachine \<Rightarrow> AppState" where
  "cur m = app_objs m (state m)"

text \<open>\<open>this.state.f = v\<close>: a write into the live state object.\<close>

definition assign :: "(AppState \<Rightarrow> AppState) \<Rightarrow> StateMachine \<Rightarrow> StateMachine" where
  "assign f m = m\<lparr>app_objs := (app_objs m)(state m := f (cur m))\<rparr>"

text \<open>An object literal \<open>{code: ..., message: ..., ...}\<close> allocates a fresh object.\<close>

definition new_error :: "ErrorState \<Rightarrow> StateMachine \<Rightarrow> ref \<times> StateMachine" where
  "new_error e m =
     (next_ref m, m\<lparr>err_objs := (err_objs m)(next_ref m := e), next_ref := Suc (next_ref m)\<rparr>)"

text \<open>\<open>{ ...this.state }\<close>: a fresh object with the fields of the live one.\<close>

definition copy_state :: "StateMachine \<Rightarrow> ref \<times> StateMachine" where
  "copy_state m =
     (next_ref m, m\<lparr>app_objs := (app_objs m)(next_ref m := cur m), next_ref := Suc (next_ref m)\<rparr>)"

text \<open>\<open>x || dflt\<close> on an optional string: undefined and the empty string are falsy.\<close>

definition js_or :: "string option \<Rightarrow> string \<Rightarrow> string" where
  "js_or x dflt = (case x of None \<Rightarrow> dflt | Some s \<Rightarrow> if s = [] then dflt else s)"

definition merge_updates :: "AppState \<Rightarrow> updates \<Rightarrow> AppState" where
  "merge_updates s u =
     \<lparr>viewState = (case u_viewState u of None \<Rightarrow> viewState s | Some v \<Rightarrow> v),
      runtimeState = (case u_runtimeState u of None \<Rightarrow> runtimeState s | Some v \<Rightarrow> v),
      loadingPhase = (case u_loadingPhase u of None \<Rightarrow> loadingPhase s | Some v \<Rightarrow> v),
      webcamStream = (case u_webcamStream u of None \<Rightarrow> webcamStream s | Some v \<Rightarrow> v),
      isVideoReady = (case u_isVideoReady u of None \<Rightarrow> isVideoReady s | Some v \<Rightarrow> v),
      hasWebGPU = (case u_hasWebGPU u of None \<Rightarrow> hasWebGPU s | Some v \<Rightarrow> v),
      error = (case u_error u of None \<Rightarrow> error s | Some v \<Rightarrow> v)\<rparr>"

definition default_state :: AppState where
  "default_state = \<lparr>viewState = Permission, runtimeState = Idle, loadingPhase = Loading_model,
     webcamStream = None, isVideoReady = False, hasWebGPU = True, error = None\<rparr>"

definition blank_error :: ErrorState where
  "blank_error = \<lparr>code = [], message = [], technical = None, recoverAction = None\<rparr>"

text \<open>
  The constructor. The state object gets reference 0; cells never allocated hold a
  blank object, and no stream has a track until the browser creates one.
\<close>

definition new_StateMachine :: "updates \<Rightarrow> StateMachine" where
  "new_StateMachine initialState =
     \<lparr>state = 0,
      app_objs = (\<lambda>_. default_state)(0 := merge_updates default_state initialState),
      err_objs = (\<lambda>_. blank_error),
      stream_objs = (\<lambda>_. []),
      next_ref = 1,
      emitted = []\<rparr>"

subsection \<open>The transition table\<close>

datatype source = From ViewState | Any

record transition =
  event :: string
  "from" :: source
  to :: ViewState
  guard :: "(StateMachine \<Rightarrow> payload \<Rightarrow> bool) option"
  action :: "(StateMachine \<Rightarrow> payload \<Rightarrow> StateMachine) option"

definition permission_denied_action :: "StateMachine \<Rightarrow> payload \<Rightarrow> StateMachine" where
  "permission_denied_action m d =
     (let (r, m1) = new_error
            \<lparr>code = ''CAMERA_DENIED'',
             message = js_or (d_message d) ''Camera access denied'',
             technical = d_technical d,
             recoverAction = Some \<lparr>label = ''Retry'', handler = Dispatch_handler ''RETRY''\<rparr>\<rparr> m
      in assign (\<lambda>s. s\<lparr>error := Some r\<rparr>) m1)"

definition stream_ended_action :: "StateMachine \<Rightarrow> payload \<Rightarrow> StateMachine" where
  "stream_ended_action m d =
     (let m1 = assign (\<lambda>s. s\<lparr>runtimeState := Recovering\<rparr>) m;
          (r, m2) = new_error
            \<lparr>code = ''STREAM_LOST'',
             message = js_or (d_reason d) ''Camera stream lost'',
             technical = None,
             recoverAction =
               Some \<lparr>label = ''Reconnect'', handler = Dispatch_handler ''RETRY_STREAM''\<rparr>\<rparr> m1
      in assign (\<lambda>s. s\<lparr>error := Some r\<rparr>) m2)"

definition stream_recovered_action :: "StateMachine \<Rightarrow> payload \<Rightarrow> StateMachine" where
  "stream_recovered_action m d =
     (let m1 = assign (\<lambda>s. s\<lparr>webcamStream := d_stream d\<rparr>) m;
          m2 = assign (\<lambda>s. s\<lparr>runtimeState := Running\<rparr>) m1
      in assign (\<lambda>s. s\<lparr>error := None\<rparr>) m2)"

definition model_failed_action :: "StateMachine \<Rightarrow> payload \<Rightarrow> StateMachine" where
  "model_failed_action m d =
     (let m1 = assign (\<lambda>s. s\<lparr>runtimeState := Failed\<rparr>) m;
          (r, m2) = new_error
            \<lparr>code = ''MODEL_LOAD_FAILED'',
             message = ''Failed to load AI model'',
             technical = d_error d,
             recoverAction = Some \<lparr>label = ''Reload Page'', handler = Reload_handler\<rparr>\<rparr> m1
      in assign (\<lambda>s. s\<lparr>error := Some r\<rparr>) m2)"

definition fatal_error_action :: "StateMachine \<Rightarrow> payload \<Rightarrow> StateMachine" where
  "fatal_error_action m d =
     (let m1 = assign (\<lambda>s. s\<lparr>runtimeState := Failed\<rparr>) m;
          (r, m2) = new_error
            \<lparr>code = js_or (d_code d) ''UNKNOWN_ERROR'',
             message = js_or (d_message d) ''An unexpected error occurred'',
             technical = d_technical d,
             recoverAction =
               (case d_recoverAction d of
                  Some a \<Rightarrow> Some a
                | None \<Rightarrow> Some \<lparr>label = ''Reload Page'', handler = Reload_handler\<rparr>)\<rparr> m1
      in assign (\<lambda>s. s\<lparr>error := Some r\<rparr>) m2)"

definition retry_action :: "StateMachine \<Rightarrow> payload \<Rightarrow> StateMachine" where
  "retry_action m d =
     (let m1 = assign (\<lambda>s. s\<lparr>error := None\<rparr>) m
      in assign (\<lambda>s. s\<lparr>runtimeState := Idle\<rparr>) m1)"

definition defineTransitions :: "transition list" where
  "defineTransitions =
    [\<lparr>event = ''PERMISSION_GRANTED'', from = From Permission, to = Welcome,
      guard = Some (\<lambda>m d. d_stream d \<noteq> None),
      action = Some (\<lambda>m d. assign (\<lambda>s. s\<lparr>webcamStream := d_stream d\<rparr>) m)\<rparr>,
     \<lparr>event = ''PERMISSION_DENIED'', from = From Permission, to = Error,
      guard = None,
      action = Some permission_denied_action\<rparr>,
     \<lparr>event = ''START'', from = From Welcome, to = Loading,
      guard = Some (\<lambda>m d. hasWebGPU (cur m) \<and> webcamStream (cur m) \<noteq> None),
      action = Some (\<lambda>m d. assign (\<lambda>s. s\<lparr>loadingPhase := Loading_wgpu\<rparr>) m)\<rparr>,
     \<lparr>event = ''START_FALLBACK'', from = From Welcome, to = Image_upload,
      guard = Some (\<lambda>m d. \<not> hasWebGPU (cur m)),
      action = None\<rparr>,
     \<lparr>event = ''WGPU_READY'', from = From Loading, to = Loading,
      guard = None,
      action = Some (\<lambda>m d. assign (\<lambda>s. s\<lparr>loadingPhase := Loading_model\<rparr>) m)\<rparr>,
     \<lparr>event = ''MODEL_LOADED'', from = From Loading, to = Loading,
      guard = None,
      action = Some (\<lambda>m d. assign (\<lambda>s. s\<lparr>runtimeState := Warming\<rparr>)
                               (assign (\<lambda>s. s\<lparr>loadingPhase := Warming_up\<rparr>) m))\<rparr>,
     \<lparr>event = ''WARMUP_COMPLETE'', from = From Loading, to = Runtime,
      guard = Some (\<lambda>m d. isVideoReady (cur m)),
      action = Some (\<lambda>m d. assign (\<lambda>s. s\<lparr>runtimeState := Running\<rparr>)
                               (assign (\<lambda>s. s\<lparr>loadingPhase := Complete\<rparr>) m))\<rparr>,
     \<lparr>event = ''PAUSE'', from = From Runtime, to = Runtime,
      guard = None,
      action = Some (\<lambda>m d. assign (\<lambda>s. s\<lparr>runtimeState := Paused\<rparr>) m)\<rparr>,
     \<lparr>event = ''RESUME'', from = From Runtime, to = Runtime,
      guard = None,
      action = Some (\<lambda>m d. assign (\<lambda>s. s\<lparr>runtimeState := Running\<rparr>) m)\<rparr>,
     \<lparr>event = ''STREAM_ENDED'', from = From Runtime, to = Runtime,
      guard = None,
      action = Some stream_ended_action\<rparr>,
     \<lparr>event = ''STREAM_RECOVERED'', from = From Runtime, to = Runtime,
      guard = Some (\<lambda>m d. runtimeState (cur m) = Recovering),
      action = Some stream_recovered_action\<rparr>,
     \<lparr>event = ''MODEL_FAILED'', from = From Loading, to = Error,
      guard = None,
      action = Some model_failed_action\<rparr>,
     \<lparr>event = ''FATAL_ERROR'', from = Any, to = Error,
      guard = None,
      action = Some fatal_error_action\<rparr>,
     \<lparr>event = ''RETRY'', from = From Error, to = Permission,
      guard = None,
      action = Some retry_action\<rparr>]"

subsection \<open>dispatch, setState, getState and the queries\<close>

definition find_transition :: "string \<Rightarrow> ViewState \<Rightarrow> transition option" where
  "find_transition ev currentState =
     find (\<lambda>t. event t = ev \<and> (from t = From currentState \<or> from t = Any)) defineTransitions"

definition dispatch :: "StateMachine \<Rightarrow> string \<Rightarrow> payload \<Rightarrow> bool \<times> StateMachine" where
  "dispatch m ev d =
     (let currentState = viewState (cur m) in
      case find_transition ev currentState of
        None \<Rightarrow> (False, m)
      | Some t \<Rightarrow>
          if (case guard t of Some g \<Rightarrow> \<not> g m d | None \<Rightarrow> False) then (False, m)
          else
            let (prevState, m1) = copy_state m;
                m2 = (case action t of Some a \<Rightarrow> a m1 d | None \<Rightarrow> m1);
                m3 = (if to t \<noteq> currentState then assign (\<lambda>s. s\<lparr>viewState := to t\<rparr>) m2
                      else m2)
            in (True,
                m3\<lparr>emitted := emitted m3 @ [Transition_change (state m3) prevState ev d]\<rparr>))"

definition setState :: "StateMachine \<Rightarrow> updates \<Rightarrow> StateMachine" where
  "setState m u =
     (let (prevState, m1) = copy_state m;
          r = next_ref m1;
          m2 = m1\<lparr>app_objs := (app_objs m1)(r := merge_updates (cur m1) u),
                  next_ref := Suc r, state := r\<rparr>
      in m2\<lparr>emitted := emitted m2 @ [Update_change (state m2) prevState u]\<rparr>)"

definition getState :: "StateMachine \<Rightarrow> ref \<times> StateMachine" where
  "getState m = copy_state m"


definition getAvailableEvents :: "StateMachine \<Rightarrow> string list" where
  "getAvailableEvents m =
     map event (filter (\<lambda>t. from t = From (viewState (cur m)) \<or> from t = Any) defineTransitions)"


text \<open>
  What a recovery handler does when the error screen invokes it: the machine's own
  handlers call \<open>this.dispatch(ev)\<close> with no payload, or reload the page.
\<close>

datatype handler_result = Dispatched bool StateMachine | Page_reloaded | Supplied_ran nat

fun invoke_handler :: "handler \<Rightarrow> StateMachine \<Rightarrow> handler_result" where
  "invoke_handler (Dispatch_handler ev) m = (case dispatch m ev no_data of (ok, m') \<Rightarrow> Dispatched ok m')"
| "invoke_handler Reload_handler m = Page_reloaded"
| "invoke_handler (Supplied_handler k) m = Supplied_ran k"

text \<open>A run of the machine under a sequence of dispatched events.\<close>

fun dispatch_all :: "StateMachine \<Rightarrow> (string \<times> payload) list \<Rightarrow> StateMachine" where
  "dispatch_all m [] = m"
| "dispatch_all m ((ev, d) # rest) = dispatch_all (snd (dispatch m ev d)) rest"

text \<open>The object main.js passes to the constructor, and the update its video element sends.\<close>

definition main_initialState :: updates where
  "main_initialState = \<lparr>u_viewState = Some Permission, u_runtimeState = Some Idle,
     u_loadingPhase = Some Loading_wgpu, u_webcamStream = Some None,
     u_isVideoReady = Some False, u_hasWebGPU = Some True, u_error = Some None\<rparr>"

definition video_ready :: updates where
  "video_ready = no_updates\<lparr>u_isVideoReady := Some True\<rparr>"

section \<open>The webcam service (js/services/webcam-service.js)\<close>

text \<open>
  The module keeps its state in top-level variables. The browser is an oracle: the
  \<open>n\<close>-th call of \<open>getUserMedia\<close> either fails with an error name or yields a stream.
  The service's observable behaviour is collected in a trace: each delay it waits, each
  \<open>getUserMedia\<close> call with its constraint level, each stream whose tracks get an
  \<open>ended\<close> listener, and each message passed to the stream-ended callback.
  The waits are suspension points; one recovery procedure is followed from start to end
  with nothing else scheduled in between.
\<close>

datatype wc_event = Wait nat | GetUserMedia nat | Listen ref | Notify string

record webcam =
  currentStream :: "ref option"
  onStreamEndedCallback :: bool
  autoRecoveryEnabled :: bool
  recoveryAttempts :: nat
  gum_calls :: nat
  trace :: "wc_event list"

definition MAX_RECOVERY_ATTEMPTS :: nat where
  "MAX_RECOVERY_ATTEMPTS = 3"

type_synonym browser = "nat \<Rightarrow> string + ref"

definition getUserMedia :: "browser \<Rightarrow> nat \<Rightarrow> webcam \<Rightarrow> (string + ref) \<times> webcam" where
  "getUserMedia b level w =
     (b (gum_calls w),
      w\<lparr>gum_calls := Suc (gum_calls w), trace := trace w @ [GetUserMedia level]\<rparr>)"

text \<open>
  Three constraint sets are tried in turn; the first success wins. On success the tracks
  are monitored, the stream is stored and the recovery counter is reset. On failure the
  error is rethrown (the source wraps it in a message first) and nothing else changes.
\<close>

definition requestWebcamPermission :: "browser \<Rightarrow> webcam \<Rightarrow> (string + ref) \<times> webcam" where
  "requestWebcamPermission b w =
     (let (r1, w1) = getUserMedia b 1 w;
          (r, w') =
            (case r1 of
               Inr s \<Rightarrow> (r1, w1)
             | Inl primaryError \<Rightarrow>
                 let (r2, w2) = getUserMedia b 2 w1 in
                 (case r2 of
                    Inr s \<Rightarrow> (r2, w2)
                  | Inl fallbackError \<Rightarrow> getUserMedia b 3 w2))
      in case r of
           Inl e \<Rightarrow> (Inl e, w')
         | Inr stream \<Rightarrow>
             (Inr stream,
              w'\<lparr>trace := trace w' @ [Listen stream], currentStream := Some stream,
                 recoveryAttempts := 0\<rparr>))"

text \<open>
  \<open>Math.min(1000 * Math.pow(2, recoveryAttempts - 1), 8000)\<close>, read after the counter
  was incremented, so its argument is at least 1. Every value is an integer a double
  holds exactly, or overflows to a value above the ceiling.
\<close>

definition backoffDelay :: "nat \<Rightarrow> nat" where
  "backoffDelay attempts = min (1000 * 2 ^ (attempts - 1)) 8000"

function attemptAutoRecovery :: "browser \<Rightarrow> webcam \<Rightarrow> bool \<times> webcam" where
  "attemptAutoRecovery b w =
     (if \<not> autoRecoveryEnabled w \<or> recoveryAttempts w \<ge> MAX_RECOVERY_ATTEMPTS then (False, w)
      else
        let w1 = w\<lparr>recoveryAttempts := recoveryAttempts w + 1\<rparr>;
            w2 = w1\<lparr>trace := trace w1 @ [Wait (backoffDelay (recoveryAttempts w1))]\<rparr>;
            (r, w3) = requestWebcamPermission b w2
        in case r of
             Inr stream \<Rightarrow> (True, w3\<lparr>recoveryAttempts := 0\<rparr>)
           | Inl e \<Rightarrow>
               if recoveryAttempts w3 < MAX_RECOVERY_ATTEMPTS then attemptAutoRecovery b w3
               else (False, w3))"
  by pat_completeness auto
termination
proof (relation "measure (\<lambda>(b, w). MAX_RECOVERY_ATTEMPTS - recoveryAttempts w)")
  show "wf (measure (\<lambda>(b, w). MAX_RECOVERY_ATTEMPTS - recoveryAttempts w))" by simp
next
  fix b w w1 w2 p r w3 e
  assume a: "\<not> (\<not> autoRecoveryEnabled w \<or> MAX_RECOVERY_ATTEMPTS \<le> recoveryAttempts w)"
    and w1: "w1 = w\<lparr>recoveryAttempts := recoveryAttempts w + 1\<rparr>"
    and w2: "w2 = w1\<lparr>trace := trace w1 @ [Wait (backoffDelay (recoveryAttempts w1))]\<rparr>"
    and p: "p = requestWebcamPermission b w2" "(r, w3) = p" "r = Inl e"
  from p have "recoveryAttempts w3 = recoveryAttempts w2"
    by (auto simp: requestWebcamPermission_def getUserMedia_def Let_def split_def
             split: sum.splits)
  with a w1 w2
  show "((b, w3), (b, w)) \<in> measure (\<lambda>(b, w). MAX_RECOVERY_ATTEMPTS - recoveryAttempts w)"
    by auto
qed

text \<open>The listener that \<open>requestWebcamPermission\<close> puts on every track of a stream.\<close>

definition on_track_ended :: "browser \<Rightarrow> webcam \<Rightarrow> webcam" where
  "on_track_ended b w =
     (let (recovered, w1) = attemptAutoRecovery b w in
      if \<not> recovered \<and> onStreamEndedCallback w1
      then w1\<lparr>trace := trace w1 @ [Notify ''Camera disconnected and auto-recovery failed'']\<rparr>
      else if recovered \<and> onStreamEndedCallback w1
      then w1\<lparr>trace := trace w1 @ [Notify ''Camera reconnected'']\<rparr>
      else w1)"

text \<open>The callback main.js registers with \<open>onStreamEnded\<close>.\<close>

definition stream_ended_callback :: "string \<Rightarrow> StateMachine \<Rightarrow> bool \<times> StateMachine" where
  "stream_ended_callback errorMessage m =
     dispatch m ''STREAM_ENDED''
       (no_data\<lparr>d_reason := Some (js_or (Some errorMessage)
          ''The camera was disconnected or access was revoked.'')\<rparr>)"

text \<open>The delays waited and the acquisitions started, as the trace records them.\<close>

fun delays :: "wc_event list \<Rightarrow> nat list" where
  "delays [] = []"
| "delays (Wait d # es) = d # delays es"
| "delays (e # es) = delays es"

fun acquisitions :: "wc_event list \<Rightarrow> nat" where
  "acquisitions [] = 0"
| "acquisitions (GetUserMedia level # es) = (if level = 1 then 1 else 0) + acquisitions es"
| "acquisitions (e # es) = acquisitions es"


section \<open>The inference service (class VLMService)\<close>

text \<open>
  \<open>runInference\<close> is an async function on a single-threaded event loop. It runs without
  interruption from its entry to its first \<open>await\<close>, and again from the completion of
  the awaited model run to its return. The two parts are modelled one by one; between
  them the call is suspended and other calls may enter. The processor and model are
  external: what the awaited run produces (the streamed text and the decoded output,
  or a thrown error) is an input of the second part.
\<close>

record VLMService =
  processor :: bool
  model :: bool
  isLoaded :: bool
  isLoading :: bool
  inferenceLock :: bool
  canvas :: bool
  ctx :: bool

definition new_VLMService :: VLMService where
  "new_VLMService = \<lparr>processor = False, model = False, isLoaded = False, isLoading = False,
     inferenceLock = False, canvas = False, ctx = False\<rparr>"

text \<open>The service once \<open>loadModel\<close> has succeeded.\<close>

definition loaded_VLMService :: VLMService where
  "loaded_VLMService = new_VLMService\<lparr>processor := True, model := True, isLoaded := True\<rparr>"

datatype call_result = Returned string | Threw string

datatype call_status = Settled call_result | Awaiting

datatype generation = Generated string string | Generation_failed string

text \<open>
  \<open>String.prototype.trim\<close> on a text of 8-bit characters: the ASCII white space and line
  terminators are stripped at both ends.
\<close>

definition is_space :: "char \<Rightarrow> bool" where
  "is_space c \<longleftrightarrow> c \<in> set [CHR '' '', CHR 0x09, CHR 0x0A, CHR 0x0B, CHR 0x0C, CHR 0x0D]"

definition trim :: "string \<Rightarrow> string" where
  "trim s = rev (dropWhile is_space (rev (dropWhile is_space s)))"

text \<open>
  From the entry to the first \<open>await\<close>. The argument says whether the browser hands out
  a 2d context when the canvas is first created. The call returns the empty string when
  the lock is held; otherwise it takes the lock, and gives it back before it throws.
\<close>

definition runInference_enter :: "VLMService \<Rightarrow> bool \<Rightarrow> call_status \<times> VLMService" where
  "runInference_enter s getContext =
     (if inferenceLock s then (Settled (Returned []), s)
      else
        let s1 = s\<lparr>inferenceLock := True\<rparr> in
        if \<not> processor s1 \<or> \<not> model s1
        then (Settled (Threw ''Model/processor not loaded''), s1\<lparr>inferenceLock := False\<rparr>)
        else
          let s2 = (if \<not> canvas s1 then s1\<lparr>canvas := True, ctx := getContext\<rparr> else s1) in
          if \<not> ctx s2
          then (Settled (Threw ''Could not get canvas context''), s2\<lparr>inferenceLock := False\<rparr>)
          else (Awaiting, s2))"

text \<open>From the completion of the awaited model run to the return or the rethrow.\<close>

definition runInference_resume :: "VLMService \<Rightarrow> generation \<Rightarrow> call_result \<times> VLMService" where
  "runInference_resume s g =
     (case g of
        Generated streamed decoded \<Rightarrow>
          (Returned (if trim streamed \<noteq> [] then trim streamed else trim decoded),
           s\<lparr>inferenceLock := False\<rparr>)
      | Generation_failed e \<Rightarrow> (Threw e, s\<lparr>inferenceLock := False\<rparr>))"

text \<open>
  The event loop around the service: a new call enters, or the model run of a suspended
  call completes. \<open>in_flight\<close> counts the suspended calls and \<open>settled\<close> lists the
  results in the order the calls settle.
\<close>

datatype loop_event = Call bool | Completion generation

record event_loop =
  service :: VLMService
  in_flight :: nat
  settled :: "call_result list"

definition new_event_loop :: "VLMService \<Rightarrow> event_loop" where
  "new_event_loop s = \<lparr>service = s, in_flight = 0, settled = []\<rparr>"

fun loop_step :: "event_loop \<Rightarrow> loop_event \<Rightarrow> event_loop" where
  "loop_step l (Call getContext) =
     (case runInference_enter (service l) getContext of
        (Settled r, s') \<Rightarrow> l\<lparr>service := s', settled := settled l @ [r]\<rparr>
      | (Awaiting, s') \<Rightarrow> l\<lparr>service := s', in_flight := Suc (in_flight l)\<rparr>)"
| "loop_step l (Completion g) =
     (if in_flight l = 0 then l
      else case runInference_resume (service l) g of
             (r, s') \<Rightarrow> l\<lparr>service := s', in_flight := in_flight l - 1,
                          settled := settled l @ [r]\<rparr>)"

definition loop_run :: "event_loop \<Rightarrow> loop_event list \<Rightarrow> event_loop" where
  "loop_run l evs = foldl loop_step l evs"

definition nonempty_result :: "call_result \<Rightarrow> bool" where
  "nonempty_result r = (case r of Returned t \<Rightarrow> t \<noteq> [] | Threw e \<Rightarrow> False)"

section \<open>Properties\<close>

subsection \<open>Observers of the state machine\<close>

text \<open>
  What a holder of a reference to a state object reads through it: the fields of the
  object and, through its \<open>error\<close> field, the error record.
\<close>

definition observe :: "StateMachine \<Rightarrow> ref \<Rightarrow> AppState \<times> ErrorState option" where
  "observe m r = (app_objs m r, map_option (err_objs m) (error (app_objs m r)))"

text \<open>
  What a holder of such a reference can write through it: \<open>snapshot.f = v\<close> on the
  object itself, and \<open>snapshot.error.f = v\<close> on the error object it refers to (a
  \<open>TypeError\<close> that writes nothing when \<open>error\<close> is null).
\<close>

definition write_field :: "ref \<Rightarrow> (AppState \<Rightarrow> AppState) \<Rightarrow> StateMachine \<Rightarrow> StateMachine" where
  "write_field r f m = m\<lparr>app_objs := (app_objs m)(r := f (app_objs m r))\<rparr>"

definition write_error_field ::
    "ref \<Rightarrow> (ErrorState \<Rightarrow> ErrorState) \<Rightarrow> StateMachine \<Rightarrow> StateMachine" where
  "write_error_field r g m =
     (case error (app_objs m r) of
        None \<Rightarrow> m
      | Some e \<Rightarrow> m\<lparr>err_objs := (err_objs m)(e := g (err_objs m e))\<rparr>)"

text \<open>
  In a machine built by the constructor and driven through its methods, the live state
  object and the error object it refers to are allocated; a state object is detached
  when it is allocated, is not the live one, and its error object is allocated.
\<close>

fun ref_below :: "ref option \<Rightarrow> ref \<Rightarrow> bool" where
  "ref_below None n = True"
| "ref_below (Some e) n = (e < n)"

definition allocated :: "StateMachine \<Rightarrow> bool" where
  "allocated m \<longleftrightarrow> state m < next_ref m \<and> ref_below (error (cur m)) (next_ref m)"

definition detached :: "StateMachine \<Rightarrow> ref \<Rightarrow> bool" where
  "detached m p \<longleftrightarrow>
     p < next_ref m \<and> p \<noteq> state m \<and> ref_below (error (app_objs m p)) (next_ref m)"

text \<open>Two writes an observer may try: \<open>snapshot.error.message = s\<close> and \<open>snapshot.viewState = v\<close>.\<close>

definition overwrite_message :: "string \<Rightarrow> ErrorState \<Rightarrow> ErrorState" where
  "overwrite_message s e = e\<lparr>message := s\<rparr>"

definition overwrite_view :: "ViewState \<Rightarrow> AppState \<Rightarrow> AppState" where
  "overwrite_view v s = s\<lparr>viewState := v\<rparr>"

subsection \<open>The error-presence condition\<close>

definition error_presence :: "AppState \<Rightarrow> bool" where
  "error_presence s \<longleftrightarrow>
     (error s \<noteq> None) =
       (viewState s = Error \<or> runtimeState s = Recovering \<or> runtimeState s = Failed)"


text \<open>One transition of the table fired on the machine: what \<open>dispatch\<close> does once it has found it.\<close>

definition fire :: "transition \<Rightarrow> StateMachine \<Rightarrow> string \<Rightarrow> payload \<Rightarrow> bool \<times> StateMachine" where
  "fire t m ev d =
     (if (case guard t of Some g \<Rightarrow> \<not> g m d | None \<Rightarrow> False) then (False, m)
      else
        let (prevState, m1) = copy_state m;
            m2 = (case action t of Some a \<Rightarrow> a m1 d | None \<Rightarrow> m1);
            m3 = (if to t \<noteq> viewState (cur m) then assign (\<lambda>s. s\<lparr>viewState := to t\<rparr>) m2
                  else m2)
        in (True, m3\<lparr>emitted := emitted m3 @ [Transition_change (state m3) prevState ev d]\<rparr>))"


subsection \<open>Scenarios\<close>

text \<open>
  The application's own way into the runtime view: the browser hands out stream 100 with
  one live track, the permission dialog dispatches \<open>PERMISSION_GRANTED\<close>, the video
  element reports \<open>canplay\<close> through \<open>setState\<close>, and the loading screen dispatches its
  events. Then the stream-ended callback dispatches \<open>STREAM_ENDED\<close>.
\<close>

definition stream_payload :: "ref \<Rightarrow> payload" where
  "stream_payload r = no_data\<lparr>d_stream := Some r\<rparr>"

definition browser_stream :: "ref \<Rightarrow> track_state list \<Rightarrow> StateMachine \<Rightarrow> StateMachine" where
  "browser_stream r tracks m = m\<lparr>stream_objs := (stream_objs m)(r := tracks)\<rparr>"

definition booted_machine :: StateMachine where
  "booted_machine = browser_stream 100 [Live] (new_StateMachine main_initialState)"

definition welcome_machine :: StateMachine where
  "welcome_machine = snd (dispatch booted_machine ''PERMISSION_GRANTED'' (stream_payload 100))"

definition ready_machine :: StateMachine where
  "ready_machine = setState welcome_machine video_ready"

definition running_machine :: StateMachine where
  "running_machine =
     dispatch_all ready_machine [(''START'', no_data), (''WGPU_READY'', no_data),
       (''MODEL_LOADED'', no_data), (''WARMUP_COMPLETE'', no_data)]"

definition recovering_machine :: StateMachine where
  "recovering_machine = snd (dispatch running_machine ''STREAM_ENDED'' no_data)"

text \<open>A machine constructed in the welcome view on a device without WebGPU.\<close>

definition welcome_without_webgpu :: StateMachine where
  "welcome_without_webgpu =
     new_StateMachine (no_updates\<lparr>u_viewState := Some Welcome, u_hasWebGPU := Some False\<rparr>)"

text \<open>The machine after the permission dialog has reported a denial.\<close>

definition denied_machine :: StateMachine where
  "denied_machine =
     snd (dispatch (new_StateMachine main_initialState) ''PERMISSION_DENIED'' no_data)"

text \<open>The handler the error screen wires to its recovery button for the current error.\<close>

definition current_handler :: "StateMachine \<Rightarrow> handler option" where
  "current_handler m =
     (case error (cur m) of
        None \<Rightarrow> None
      | Some e \<Rightarrow> map_option handler (recoverAction (err_objs m e)))"

subsection \<open>Measuring a recovery procedure\<close>

text \<open>
  The acquisitions started and the delays waited between two states of the service, and
  what a recovery procedure that made \<open>k\<close> attempts leaves behind.
\<close>

definition attempts_made :: "webcam \<Rightarrow> webcam \<Rightarrow> nat" where
  "attempts_made w w' = acquisitions (trace w') - acquisitions (trace w)"

definition new_delays :: "webcam \<Rightarrow> webcam \<Rightarrow> nat list" where
  "new_delays w w' = drop (length (delays (trace w))) (delays (trace w'))"

definition recovery_outcome :: "webcam \<Rightarrow> bool \<Rightarrow> webcam \<Rightarrow> nat \<Rightarrow> bool" where
  "recovery_outcome w r w' k \<longleftrightarrow>
     autoRecoveryEnabled w' = autoRecoveryEnabled w \<and>
     onStreamEndedCallback w' = onStreamEndedCallback w \<and>
     acquisitions (trace w') = acquisitions (trace w) + k \<and>
     delays (trace w') =
       delays (trace w) @ map backoffDelay
         [Suc (recoveryAttempts w) ..< Suc (recoveryAttempts w) + k] \<and>
     recoveryAttempts w + k \<le> max (recoveryAttempts w) MAX_RECOVERY_ATTEMPTS \<and>
     (if r then recoveryAttempts w' = 0 \<and> currentStream w' \<noteq> None \<and> 0 < k
      else recoveryAttempts w' = recoveryAttempts w + k \<and> currentStream w' = currentStream w \<and>
           (autoRecoveryEnabled w \<longrightarrow> MAX_RECOVERY_ATTEMPTS \<le> recoveryAttempts w'))"

text \<open>
  The service after a first successful acquisition with a callback registered, a browser
  whose camera stays away, and one whose camera is back at the ninth request.
\<close>

definition connected_webcam :: webcam where
  "connected_webcam = \<lparr>currentStream = Some 100, onStreamEndedCallback = True,
     autoRecoveryEnabled = True, recoveryAttempts = 0, gum_calls = 1,
     trace = [GetUserMedia 1, Listen 100]\<rparr>"

definition unplugged :: browser where
  "unplugged n = Inl ''NotFoundError''"

definition replugged :: browser where
  "replugged n = (if n = 8 then Inr 200 else Inl ''NotFoundError'')"

subsection \<open>The lock and the calls in flight\<close>

definition loop_inv :: "event_loop \<Rightarrow> bool" where
  "loop_inv l \<longleftrightarrow> in_flight l \<le> 1 \<and> (inferenceLock (service l) \<longleftrightarrow> in_flight l = 1)"

text \<open>A call on this service gets as far as the model run.\<close>

definition can_start :: "VLMService \<Rightarrow> bool \<Rightarrow> bool" where
  "can_start s c \<longleftrightarrow>
     \<not> inferenceLock s \<and> processor s \<and> model s \<and> (if canvas s then ctx s else c)"


section \<open>Proofs about the state machine\<close>

subsection \<open>The store and the transition table\<close>

lemma cur_assign [simp]: "cur (assign f m) = f (cur m)"
  by (simp add: cur_def assign_def)

lemma cur_copy_state [simp]: "cur (snd (copy_state m)) = cur m"
  by (simp add: cur_def copy_state_def)

lemma cur_new_error [simp]: "cur (snd (new_error e m)) = cur m"
  by (simp add: cur_def new_error_def)

lemma cur_emitted [simp]: "cur (m\<lparr>emitted := x\<rparr>) = cur m"
  by (simp add: cur_def)

lemmas action_defs = permission_denied_action_def stream_ended_action_def
  stream_recovered_action_def model_failed_action_def fatal_error_action_def retry_action_def

lemmas machine_defs = cur_def assign_def new_error_def copy_state_def js_or_def
  merge_updates_def default_state_def blank_error_def new_StateMachine_def no_data_def
  no_updates_def main_initialState_def video_ready_def setState_def getState_def

lemma dispatch_fire:
  "dispatch m ev d =
     (case find_transition ev (viewState (cur m)) of
        None \<Rightarrow> (False, m)
      | Some t \<Rightarrow> fire t m ev d)"
  by (simp add: dispatch_def fire_def Let_def split: option.splits)

lemma find_transition_SomeD:
  "find_transition ev v = Some t \<Longrightarrow>
     t \<in> set defineTransitions \<and> event t = ev \<and> (from t = From v \<or> from t = Any)"
  by (auto simp: find_transition_def find_Some_iff)

text \<open>Each event names one row, so the first match is decided by the event and the view.\<close>

lemma find_transition_cases:
  "find_transition ev v =
    (if ev = ''PERMISSION_GRANTED'' \<and> v = Permission then Some (defineTransitions ! 0) else
     if ev = ''PERMISSION_DENIED'' \<and> v = Permission then Some (defineTransitions ! 1) else
     if ev = ''START'' \<and> v = Welcome then Some (defineTransitions ! 2) else
     if ev = ''START_FALLBACK'' \<and> v = Welcome then Some (defineTransitions ! 3) else
     if ev = ''WGPU_READY'' \<and> v = Loading then Some (defineTransitions ! 4) else
     if ev = ''MODEL_LOADED'' \<and> v = Loading then Some (defineTransitions ! 5) else
     if ev = ''WARMUP_COMPLETE'' \<and> v = Loading then Some (defineTransitions ! 6) else
     if ev = ''PAUSE'' \<and> v = Runtime then Some (defineTransitions ! 7) else
     if ev = ''RESUME'' \<and> v = Runtime then Some (defineTransitions ! 8) else
     if ev = ''STREAM_ENDED'' \<and> v = Runtime then Some (defineTransitions ! 9) else
     if ev = ''STREAM_RECOVERED'' \<and> v = Runtime then Some (defineTransitions ! 10) else
     if ev = ''MODEL_FAILED'' \<and> v = Loading then Some (defineTransitions ! 11) else
     if ev = ''FATAL_ERROR'' then Some (defineTransitions ! 12) else
     if ev = ''RETRY'' \<and> v = Error then Some (defineTransitions ! 13) else None)"
  unfolding find_transition_def defineTransitions_def
  by (simp del: One_nat_def)

lemmas eval_defs = machine_defs dispatch_def find_transition_cases defineTransitions_def
  action_defs Let_def split_def stream_payload_def browser_stream_def

lemmas scenario_defs = recovering_machine_def running_machine_def ready_machine_def
  welcome_machine_def booted_machine_def

text \<open>The primitive updates of the store, field by field.\<close>

lemma assign_simps:
  "state (assign f m) = state m" "next_ref (assign f m) = next_ref m"
  "err_objs (assign f m) = err_objs m" "stream_objs (assign f m) = stream_objs m"
  "emitted (assign f m) = emitted m"
  "app_objs (assign f m) r = (if r = state m then f (cur m) else app_objs m r)"
  by (simp_all add: assign_def)

lemma new_error_simps:
  "fst (new_error e m) = next_ref m"
  "state (snd (new_error e m)) = state m"
  "next_ref (snd (new_error e m)) = Suc (next_ref m)"
  "app_objs (snd (new_error e m)) = app_objs m"
  "stream_objs (snd (new_error e m)) = stream_objs m"
  "emitted (snd (new_error e m)) = emitted m"
  "err_objs (snd (new_error e m)) r = (if r = next_ref m then e else err_objs m r)"
  by (simp_all add: new_error_def)

lemma copy_state_simps:
  "fst (copy_state m) = next_ref m"
  "state (snd (copy_state m)) = state m"
  "next_ref (snd (copy_state m)) = Suc (next_ref m)"
  "err_objs (snd (copy_state m)) = err_objs m"
  "stream_objs (snd (copy_state m)) = stream_objs m"
  "emitted (snd (copy_state m)) = emitted m"
  "app_objs (snd (copy_state m)) r = (if r = next_ref m then cur m else app_objs m r)"
  by (simp_all add: copy_state_def)

lemmas store_simps = assign_simps new_error_simps copy_state_simps

lemma ref_below_mono: "ref_below x n \<Longrightarrow> n \<le> n' \<Longrightarrow> ref_below x n'"
  by (cases x) simp_all

lemma ref_below_Suc [simp]:
  "ref_below x n \<Longrightarrow> ref_below x (Suc n)"
  "ref_below x n \<Longrightarrow> ref_below x (Suc (Suc n))"
  by (cases x; simp)+

text \<open>
  What a dispatch leaves alone: the reference \<open>this.state\<close>, every stream, every error
  object that already exists, and every state object other than the live one.
\<close>

lemma fire_frame:
  "\<forall>t \<in> set defineTransitions.
     state (snd (fire t m ev d)) = state m \<and>
     next_ref m \<le> next_ref (snd (fire t m ev d)) \<and>
     stream_objs (snd (fire t m ev d)) = stream_objs m \<and>
     (\<forall>r. r < next_ref m \<longrightarrow> err_objs (snd (fire t m ev d)) r = err_objs m r) \<and>
     (\<forall>r. r < next_ref m \<longrightarrow> r \<noteq> state m \<longrightarrow>
          app_objs (snd (fire t m ev d)) r = app_objs m r)"
  unfolding defineTransitions_def
  by (simp add: fire_def action_defs Let_def split_def store_simps)

lemma dispatch_frame:
  "state (snd (dispatch m ev d)) = state m \<and>
   next_ref m \<le> next_ref (snd (dispatch m ev d)) \<and>
   stream_objs (snd (dispatch m ev d)) = stream_objs m \<and>
   (\<forall>r. r < next_ref m \<longrightarrow> err_objs (snd (dispatch m ev d)) r = err_objs m r) \<and>
   (\<forall>r. r < next_ref m \<longrightarrow> r \<noteq> state m \<longrightarrow>
        app_objs (snd (dispatch m ev d)) r = app_objs m r)"
proof (cases "find_transition ev (viewState (cur m))")
  case None
  then show ?thesis by (simp add: dispatch_fire)
next
  case (Some t)
  then have "t \<in> set defineTransitions" by (simp add: find_transition_SomeD)
  with fire_frame [of m ev d] Some show ?thesis by (simp add: dispatch_fire)
qed

subsection \<open>Rejected dispatches\<close>

text \<open>
  C2. When no rule of the table matches the event and the current view (a wildcard
  source matches every view), \<open>dispatch\<close> returns false and the machine is the same as
  before: the live state with its view, runtime state and error, every object of the
  store, and the list of emitted notifications.
\<close>

theorem dispatch_unmatched_noop:
  assumes "\<not> (\<exists>t \<in> set defineTransitions.
              event t = ev \<and> (from t = From (viewState (cur m)) \<or> from t = Any))"
  shows "dispatch m ev d = (False, m)"
proof -
  from assms have "find_transition ev (viewState (cur m)) = None"
    by (auto simp: find_transition_def find_None_iff)
  then show ?thesis by (simp add: dispatch_def)
qed

theorem dispatch_unmatched_noop_witness:
  "dispatch (new_StateMachine no_updates) ''RESUME'' no_data
     = (False, new_StateMachine no_updates)"
proof -
  have "\<not> (\<exists>t \<in> set defineTransitions. event t = ''RESUME'' \<and>
          (from t = From (viewState (cur (new_StateMachine no_updates))) \<or> from t = Any))"
    by (simp add: defineTransitions_def machine_defs)
  from dispatch_unmatched_noop [OF this] show ?thesis .
qed

text \<open>
  C5. In the welcome view with \<open>hasWebGPU\<close> false, \<open>dispatch('START')\<close> returns false
  and leaves the machine as it was, so the view stays \<open>welcome\<close> and is never \<open>loading\<close>.
\<close>

theorem start_rejected_without_webgpu:
  assumes "viewState (cur m) = Welcome" and "\<not> hasWebGPU (cur m)"
  shows "dispatch m ''START'' d = (False, m)"
  using assms by (simp add: dispatch_def find_transition_cases defineTransitions_def)

theorem start_rejected_without_webgpu_witness:
  "viewState (cur welcome_without_webgpu) = Welcome \<and>
   \<not> hasWebGPU (cur welcome_without_webgpu) \<and>
   dispatch welcome_without_webgpu ''START'' no_data = (False, welcome_without_webgpu) \<and>
   viewState (cur (snd (dispatch welcome_without_webgpu ''START'' no_data))) \<noteq> Loading"
proof -
  have a: "viewState (cur welcome_without_webgpu) = Welcome"
    and b: "\<not> hasWebGPU (cur welcome_without_webgpu)"
    by (simp_all add: welcome_without_webgpu_def machine_defs)
  from start_rejected_without_webgpu [OF a b, of no_data] a b show ?thesis by simp
qed

subsection \<open>canTransitionTo and the wildcard rule\<close>




subsection \<open>The error-presence invariant\<close>








text \<open>
  The runs above never enter the runtime view: its only entry, \<open>WARMUP_COMPLETE\<close>, is
  guarded by \<open>isVideoReady\<close>, which no transition sets. Once the video element has set it
  through \<open>setState\<close>, the condition is not an invariant of \<open>dispatch\<close> any more:
  \<open>PAUSE\<close> (and likewise \<open>RESUME\<close>) while recovering changes the runtime state and
  keeps the error.
\<close>

lemma recovering_machine_cur:
  "cur recovering_machine = \<lparr>viewState = Runtime, runtimeState = Recovering,
     loadingPhase = Complete, webcamStream = Some 100, isVideoReady = True, hasWebGPU = True,
     error = Some 9\<rparr>"
  by (simp add: scenario_defs eval_defs)

lemma error_presence_lost_after_pause:
  "error_presence (cur recovering_machine) \<and>
   \<not> error_presence (cur (snd (dispatch recovering_machine ''PAUSE'' no_data)))"
  using recovering_machine_cur
  by (simp add: dispatch_def find_transition_cases defineTransitions_def Let_def split_def
        error_presence_def)

subsection \<open>Recovery actions\<close>

lemma recovering_machine_error:
  "err_objs recovering_machine 9 = \<lparr>code = ''STREAM_LOST'', message = ''Camera stream lost'',
     technical = None,
     recoverAction = Some \<lparr>label = ''Reconnect'', handler = Dispatch_handler ''RETRY_STREAM''\<rparr>\<rparr>"
  by (simp add: scenario_defs eval_defs)

text \<open>No row of the table has the event \<open>RETRY_STREAM\<close>.\<close>

lemma retry_stream_unknown: "find_transition ''RETRY_STREAM'' v = None"
  by (simp add: find_transition_cases)

text \<open>
  C8. The error built by \<open>STREAM_ENDED\<close> carries the recovery action \<open>Reconnect\<close>, whose
  handler dispatches \<open>RETRY_STREAM\<close>. Invoked in the state that \<open>STREAM_ENDED\<close> leaves,
  the handler's dispatch is rejected: it returns false and the machine stays as it is,
  still recovering, so this error's recovery action leads nowhere.
\<close>

theorem stream_lost_handler_rejected:
  "viewState (cur recovering_machine) = Runtime \<and>
   runtimeState (cur recovering_machine) = Recovering \<and>
   current_handler recovering_machine = Some (Dispatch_handler ''RETRY_STREAM'') \<and>
   invoke_handler (Dispatch_handler ''RETRY_STREAM'') recovering_machine
     = Dispatched False recovering_machine"
proof -
  have "dispatch recovering_machine ''RETRY_STREAM'' no_data = (False, recovering_machine)"
    by (simp add: dispatch_def retry_stream_unknown)
  then show ?thesis
    by (simp add: current_handler_def recovering_machine_cur recovering_machine_error)
qed

subsection \<open>Replacing the camera stream\<close>

lemma recovering_machine_stream: "stream_objs recovering_machine 100 = [Live]"
  by (simp add: scenario_defs eval_defs)

text \<open>
  C4. The machine holds stream 100, whose track is live, and is recovering.
  \<open>STREAM_RECOVERED\<close> with stream 200 is applied and stores stream 200; the track of
  stream 100 is still live afterwards. No transition action stops a track.
\<close>

theorem stream_replaced_without_stop:
  "webcamStream (cur recovering_machine) = Some 100 \<and>
   stream_objs recovering_machine 100 = [Live] \<and>
   fst (dispatch recovering_machine ''STREAM_RECOVERED'' (stream_payload 200)) \<and>
   webcamStream (cur (snd (dispatch recovering_machine ''STREAM_RECOVERED'' (stream_payload 200))))
     = Some 200 \<and>
   stream_objs (snd (dispatch recovering_machine ''STREAM_RECOVERED'' (stream_payload 200))) 100
     = [Live]"
proof -
  note v = recovering_machine_cur
  have a: "fst (dispatch recovering_machine ''STREAM_RECOVERED'' (stream_payload 200))"
    using v by (simp add: dispatch_def find_transition_cases defineTransitions_def Let_def split_def)
  have b: "webcamStream (cur (snd (dispatch recovering_machine ''STREAM_RECOVERED''
              (stream_payload 200)))) = Some 200"
    using v by (simp add: dispatch_def find_transition_cases defineTransitions_def Let_def
                  split_def stream_recovered_action_def stream_payload_def no_data_def)
  have c: "stream_objs (snd (dispatch recovering_machine ''STREAM_RECOVERED''
              (stream_payload 200))) 100 = [Live]"
    using dispatch_frame [of recovering_machine "''STREAM_RECOVERED''" "stream_payload 200"]
    by (simp add: recovering_machine_stream)
  from a b c show ?thesis by (simp add: v recovering_machine_stream)
qed


subsection \<open>Snapshots and notifications\<close>

lemma fire_prevState:
  "\<forall>t \<in> set defineTransitions. state m < next_ref m \<longrightarrow> fst (fire t m ev d) \<longrightarrow>
     emitted (snd (fire t m ev d))
       = emitted m @ [Transition_change (state m) (next_ref m) ev d] \<and>
     app_objs (snd (fire t m ev d)) (next_ref m) = cur m \<and>
     next_ref m < next_ref (snd (fire t m ev d))"
  unfolding defineTransitions_def
  by (simp add: fire_def action_defs Let_def split_def store_simps)

lemma dispatch_prevState:
  assumes "state m < next_ref m" and "fst (dispatch m ev d)"
  shows "emitted (snd (dispatch m ev d))
           = emitted m @ [Transition_change (state m) (next_ref m) ev d] \<and>
         app_objs (snd (dispatch m ev d)) (next_ref m) = cur m \<and>
         next_ref m < next_ref (snd (dispatch m ev d))"
proof (cases "find_transition ev (viewState (cur m))")
  case None
  with assms show ?thesis by (simp add: dispatch_fire)
next
  case (Some t)
  then have "t \<in> set defineTransitions" by (simp add: find_transition_SomeD)
  with fire_prevState [of m ev d] Some assms show ?thesis by (simp add: dispatch_fire)
qed

lemma detached_dispatch:
  assumes "detached m p"
  shows "detached (snd (dispatch m ev d)) p \<and> observe (snd (dispatch m ev d)) p = observe m p"
proof -
  let ?m' = "snd (dispatch m ev d)"
  from dispatch_frame [of m ev d]
  have st: "state ?m' = state m"
    and nx: "next_ref m \<le> next_ref ?m'"
    and fe: "\<forall>r. r < next_ref m \<longrightarrow> err_objs ?m' r = err_objs m r"
    and fa: "\<forall>r. r < next_ref m \<longrightarrow> r \<noteq> state m \<longrightarrow> app_objs ?m' r = app_objs m r"
    by simp_all
  from assms have a: "p < next_ref m" "p \<noteq> state m"
    "ref_below (error (app_objs m p)) (next_ref m)"
    by (simp_all add: detached_def)
  from fa a have ap: "app_objs ?m' p = app_objs m p" by simp
  from a(3) nx have "ref_below (error (app_objs m p)) (next_ref ?m')"
    by (rule ref_below_mono)
  with a st nx ap have d: "detached ?m' p" by (simp add: detached_def)
  from a(3) fe
  have "map_option (err_objs ?m') (error (app_objs m p))
          = map_option (err_objs m) (error (app_objs m p))"
    by (cases "error (app_objs m p)") simp_all
  then have "observe ?m' p = observe m p" by (simp add: observe_def ap)
  with d show ?thesis ..
qed

lemma detached_dispatch_all:
  "detached m p \<Longrightarrow> observe (dispatch_all m evs) p = observe m p"
proof (induction m evs rule: dispatch_all.induct)
  case (1 m)
  then show ?case by simp
next
  case (2 m ev d rest)
  from detached_dispatch [OF "2.prems", of ev d] "2.IH" show ?case by simp
qed

text \<open>Machines built by the constructor and driven through their methods stay allocated.\<close>

lemma fire_allocated:
  "\<forall>t \<in> set defineTransitions. allocated m \<longrightarrow> allocated (snd (fire t m ev d))"
  unfolding defineTransitions_def
  by (simp add: fire_def action_defs Let_def split_def store_simps allocated_def)

lemma dispatch_allocated: "allocated m \<Longrightarrow> allocated (snd (dispatch m ev d))"
proof (cases "find_transition ev (viewState (cur m))")
  case None
  assume "allocated m"
  with None show ?thesis by (simp add: dispatch_fire)
next
  case (Some t)
  assume a: "allocated m"
  from Some have "t \<in> set defineTransitions" by (simp add: find_transition_SomeD)
  with fire_allocated [of m ev d] Some a show ?thesis by (simp add: dispatch_fire)
qed

lemma dispatch_all_allocated: "allocated m \<Longrightarrow> allocated (dispatch_all m evs)"
  by (induction m evs rule: dispatch_all.induct) (simp_all add: dispatch_allocated)

lemma constructed_allocated:
  "allocated (new_StateMachine no_updates)" "allocated (new_StateMachine main_initialState)"
  by (simp_all add: allocated_def machine_defs)

lemma setState_allocated:
  assumes "allocated m" and "u_error u = None \<or> u_error u = Some None"
  shows "allocated (setState m u)"
proof -
  from assms(1) have "ref_below (error (cur m)) (Suc (Suc (next_ref m)))"
    by (simp add: allocated_def)
  with assms show ?thesis
    by (auto simp: allocated_def machine_defs Let_def)
qed

lemma denied_machine_cur:
  "cur denied_machine = \<lparr>viewState = Error, runtimeState = Idle, loadingPhase = Loading_wgpu,
     webcamStream = None, isVideoReady = False, hasWebGPU = True, error = Some 2\<rparr>"
  "state denied_machine = 0" "next_ref denied_machine = 3"
  by (simp_all add: denied_machine_def eval_defs)

lemma denied_machine_error:
  "err_objs denied_machine 2 = \<lparr>code = ''CAMERA_DENIED'', message = ''Camera access denied'',
     technical = None,
     recoverAction = Some \<lparr>label = ''Retry'', handler = Dispatch_handler ''RETRY''\<rparr>\<rparr>"
  by (simp add: denied_machine_def eval_defs)

lemma denied_machine_emitted:
  "emitted denied_machine = [Transition_change 0 1 ''PERMISSION_DENIED'' no_data]"
  by (simp add: denied_machine_def eval_defs)

lemma denied_machine_retry: "fst (dispatch denied_machine ''RETRY'' no_data)"
  using denied_machine_cur
  by (simp add: dispatch_def find_transition_cases defineTransitions_def Let_def split_def)

text \<open>
  C9, as the claim states it, fails. The object \<open>getState\<close> returns refers to the same
  error object as the live state: writing \<open>message\<close> through the snapshot's \<open>error\<close>
  changes what the live state shows. And the \<open>state\<close> carried by a notification is the
  live state object itself: after the next dispatch it shows the new state.
\<close>

theorem snapshot_shares_nested_objects:
  "observe (write_error_field (fst (getState denied_machine)) (overwrite_message ''changed'')
              (snd (getState denied_machine))) (state denied_machine)
     \<noteq> observe denied_machine (state denied_machine) \<and>
   n_state (last (emitted denied_machine)) = state denied_machine \<and>
   observe (snd (dispatch denied_machine ''RETRY'' no_data))
       (n_state (last (emitted denied_machine)))
     \<noteq> observe denied_machine (n_state (last (emitted denied_machine)))"
proof -
  have a: "observe (write_error_field (fst (getState denied_machine))
              (overwrite_message ''changed'') (snd (getState denied_machine)))
              (state denied_machine)
     \<noteq> observe denied_machine (state denied_machine)"
    using denied_machine_cur denied_machine_error
    by (simp add: getState_def copy_state_def write_error_field_def observe_def cur_def
          overwrite_message_def)
  have b: "n_state (last (emitted denied_machine)) = state denied_machine"
    by (simp add: denied_machine_emitted denied_machine_cur)
  have "cur (snd (dispatch denied_machine ''RETRY'' no_data)) \<noteq> cur denied_machine"
    using denied_machine_cur
    by (simp add: dispatch_def find_transition_cases defineTransitions_def Let_def split_def
          retry_action_def)
  then have c: "observe (snd (dispatch denied_machine ''RETRY'' no_data))
        (n_state (last (emitted denied_machine)))
     \<noteq> observe denied_machine (n_state (last (emitted denied_machine)))"
    using dispatch_frame [of denied_machine "''RETRY''" no_data]
    by (simp add: b observe_def cur_def)
  from a b c show ?thesis by simp
qed

text \<open>
  C9, amended. \<open>getState\<close> returns a fresh object with the fields of the live state, a
  shallow copy: a write to a field of the returned object leaves what the live state
  shows unchanged. An applied dispatch emits a notification whose \<open>state\<close> is the live
  state object and whose \<open>prevState\<close> is a fresh shallow copy taken before the action;
  \<open>prevState\<close> shows the state before the transition, and still does after any further
  dispatches.
\<close>

theorem snapshots_are_shallow:
  assumes "allocated m"
  shows "fst (getState m) \<noteq> state (snd (getState m)) \<and>
         observe (snd (getState m)) (fst (getState m)) = observe m (state m) \<and>
         observe (write_field (fst (getState m)) f (snd (getState m))) (state m)
           = observe m (state m) \<and>
         (fst (dispatch m ev d) \<longrightarrow>
            n_state (last (emitted (snd (dispatch m ev d)))) = state (snd (dispatch m ev d)) \<and>
            n_prevState (last (emitted (snd (dispatch m ev d))))
              \<noteq> state (snd (dispatch m ev d)) \<and>
            observe (snd (dispatch m ev d))
                (n_prevState (last (emitted (snd (dispatch m ev d)))))
              = observe m (state m) \<and>
            observe (dispatch_all (snd (dispatch m ev d)) evs)
                (n_prevState (last (emitted (snd (dispatch m ev d)))))
              = observe m (state m))"
proof -
  from assms have lt: "state m < next_ref m"
    and er: "ref_below (error (cur m)) (next_ref m)"
    by (simp_all add: allocated_def)
  have g1: "fst (getState m) \<noteq> state (snd (getState m))"
    using lt by (simp add: getState_def copy_state_def)
  have g2: "observe (snd (getState m)) (fst (getState m)) = observe m (state m)"
    by (simp add: getState_def copy_state_def observe_def cur_def)
  have g3: "observe (write_field (fst (getState m)) f (snd (getState m))) (state m)
           = observe m (state m)"
    using lt by (simp add: getState_def copy_state_def observe_def write_field_def)
  have g4: "n_state (last (emitted (snd (dispatch m ev d)))) = state (snd (dispatch m ev d)) \<and>
            n_prevState (last (emitted (snd (dispatch m ev d))))
              \<noteq> state (snd (dispatch m ev d)) \<and>
            observe (snd (dispatch m ev d))
                (n_prevState (last (emitted (snd (dispatch m ev d)))))
              = observe m (state m) \<and>
            observe (dispatch_all (snd (dispatch m ev d)) evs)
                (n_prevState (last (emitted (snd (dispatch m ev d)))))
              = observe m (state m)" if ok: "fst (dispatch m ev d)"
  proof -
    let ?m' = "snd (dispatch m ev d)"
    from dispatch_prevState [OF lt ok]
    have em: "emitted ?m' = emitted m @ [Transition_change (state m) (next_ref m) ev d]"
      and cp: "app_objs ?m' (next_ref m) = cur m"
      and nx: "next_ref m < next_ref ?m'" by simp_all
    from dispatch_frame [of m ev d]
    have st: "state ?m' = state m"
      and fr: "\<forall>r. r < next_ref m \<longrightarrow> err_objs ?m' r = err_objs m r" by simp_all
    have p: "n_prevState (last (emitted ?m')) = next_ref m" using em by simp
    from er fr
    have "map_option (err_objs ?m') (error (cur m)) = map_option (err_objs m) (error (cur m))"
      by (cases "error (cur m)") simp_all
    then have ob: "observe ?m' (next_ref m) = observe m (state m)"
      by (simp add: observe_def cp) (simp add: cur_def)
    from er less_imp_le [OF nx] have "ref_below (error (cur m)) (next_ref ?m')"
      by (rule ref_below_mono)
    with nx st lt cp have "detached ?m' (next_ref m)"
      by (simp add: detached_def)
    from detached_dispatch_all [OF this, of evs] ob
    have "observe (dispatch_all ?m' evs) (next_ref m) = observe m (state m)" by simp
    with em st lt ob p show ?thesis by simp
  qed
  from g1 g2 g3 g4 show ?thesis by blast
qed

theorem snapshots_are_shallow_witness:
  "allocated denied_machine \<and> fst (dispatch denied_machine ''RETRY'' no_data) \<and>
   fst (getState denied_machine) \<noteq> state (snd (getState denied_machine)) \<and>
   observe (write_field (fst (getState denied_machine)) (overwrite_view Runtime)
       (snd (getState denied_machine))) (state denied_machine)
     = observe denied_machine (state denied_machine) \<and>
   observe (dispatch_all (snd (dispatch denied_machine ''RETRY'' no_data))
       [(''PERMISSION_GRANTED'', stream_payload 100)])
       (n_prevState (last (emitted (snd (dispatch denied_machine ''RETRY'' no_data)))))
     = observe denied_machine (state denied_machine)"
proof -
  have a: "allocated denied_machine"
    by (simp add: allocated_def denied_machine_cur)
  from snapshots_are_shallow [OF a, of "overwrite_view Runtime" "''RETRY''" no_data
         "[(''PERMISSION_GRANTED'', stream_payload 100)]"]
       a denied_machine_retry
  show ?thesis by simp
qed


section \<open>Proofs about the webcam service\<close>

lemma delays_append: "delays (xs @ ys) = delays xs @ delays ys"
  by (induction xs rule: delays.induct) simp_all

lemma acquisitions_append: "acquisitions (xs @ ys) = acquisitions xs + acquisitions ys"
  by (induction xs rule: acquisitions.induct) simp_all

declare attemptAutoRecovery.simps [simp del]

lemma backoffDelay_mono:
  assumes "a \<le> b"
  shows "backoffDelay a \<le> backoffDelay b"
proof -
  define x y where "x = (2::nat) ^ (a - 1)" and "y = (2::nat) ^ (b - 1)"
  from assms have "x \<le> y"
    unfolding x_def y_def by (intro power_increasing) simp_all
  then have "min (1000 * x) 8000 \<le> min (1000 * y) 8000" by simp
  then show ?thesis by (simp add: backoffDelay_def x_def y_def)
qed

lemma backoffDelay_le: "backoffDelay a \<le> 8000"
  by (simp add: backoffDelay_def)

lemma sorted_backoff: "sorted (map backoffDelay [i..<j])"
  by (simp add: sorted_map sorted_wrt_iff_nth_less backoffDelay_mono)

lemma request_failed:
  assumes "requestWebcamPermission b w = (Inl e, w')"
  shows "recoveryAttempts w' = recoveryAttempts w" "autoRecoveryEnabled w' = autoRecoveryEnabled w"
    "onStreamEndedCallback w' = onStreamEndedCallback w" "currentStream w' = currentStream w"
    "delays (trace w') = delays (trace w)"
    "acquisitions (trace w') = Suc (acquisitions (trace w))"
  using assms
  by (auto simp: requestWebcamPermission_def getUserMedia_def Let_def split_def delays_append
        acquisitions_append split: sum.splits)

lemma request_succeeded:
  assumes "requestWebcamPermission b w = (Inr s, w')"
  shows "recoveryAttempts w' = 0" "autoRecoveryEnabled w' = autoRecoveryEnabled w"
    "onStreamEndedCallback w' = onStreamEndedCallback w" "currentStream w' = Some s"
    "delays (trace w') = delays (trace w)"
    "acquisitions (trace w') = Suc (acquisitions (trace w))"
  using assms
  by (auto simp: requestWebcamPermission_def getUserMedia_def Let_def split_def delays_append
        acquisitions_append split: sum.splits)

lemma request_all_fail:
  assumes "\<forall>n. isl (b n)"
  shows "isl (fst (requestWebcamPermission b w))"
  using assms [rule_format, of "gum_calls w"] assms [rule_format, of "Suc (gum_calls w)"]
    assms [rule_format, of "Suc (Suc (gum_calls w))"]
  by (auto simp: requestWebcamPermission_def getUserMedia_def Let_def split_def
        split: sum.splits)


lemma recovery_shape:
  "\<exists>k. recovery_outcome w (fst (attemptAutoRecovery b w)) (snd (attemptAutoRecovery b w)) k"
proof (induction b w rule: attemptAutoRecovery.induct)
  case (1 b w)
  show ?case
  proof (cases "\<not> autoRecoveryEnabled w \<or> recoveryAttempts w \<ge> MAX_RECOVERY_ATTEMPTS")
    case True
    then have "attemptAutoRecovery b w = (False, w)"
      by (simp add: attemptAutoRecovery.simps [of b w])
    with True have "recovery_outcome w (fst (attemptAutoRecovery b w))
        (snd (attemptAutoRecovery b w)) 0"
      by (auto simp: recovery_outcome_def)
    then show ?thesis ..
  next
    case False
    define w1 where "w1 = w\<lparr>recoveryAttempts := recoveryAttempts w + 1\<rparr>"
    define w2 where "w2 = w1\<lparr>trace := trace w1 @ [Wait (backoffDelay (recoveryAttempts w1))]\<rparr>"
    obtain r w3 where req: "requestWebcamPermission b w2 = (r, w3)"
      by (cases "requestWebcamPermission b w2")
    show ?thesis
    proof (cases r)
      case (Inr s)
      with False req have res: "attemptAutoRecovery b w = (True, w3\<lparr>recoveryAttempts := 0\<rparr>)"
        by (simp add: attemptAutoRecovery.simps [of b w] w1_def w2_def Let_def)
      from request_succeeded [OF req [unfolded Inr]] False
      have "recovery_outcome w (fst (attemptAutoRecovery b w))
              (snd (attemptAutoRecovery b w)) 1"
        by (simp add: res recovery_outcome_def w1_def w2_def delays_append acquisitions_append)
      then show ?thesis ..
    next
      case (Inl e)
      note f = request_failed [OF req [unfolded Inl]]
      show ?thesis
      proof (cases "recoveryAttempts w3 < MAX_RECOVERY_ATTEMPTS")
        case True
        with False req Inl have res: "attemptAutoRecovery b w = attemptAutoRecovery b w3"
          by (simp add: attemptAutoRecovery.simps [of b w] w1_def w2_def Let_def)
        from "1.IH" [OF False w1_def w2_def req [symmetric] refl Inl True]
        obtain k where ih: "recovery_outcome w3 (fst (attemptAutoRecovery b w3))
              (snd (attemptAutoRecovery b w3)) k" ..
        have up: "[Suc (recoveryAttempts w) ..< Suc (recoveryAttempts w) + Suc k]
                = Suc (recoveryAttempts w) #
                  [Suc (Suc (recoveryAttempts w)) ..< Suc (Suc (recoveryAttempts w)) + k]"
          by (simp add: upt_conv_Cons)
        have "recovery_outcome w (fst (attemptAutoRecovery b w))
              (snd (attemptAutoRecovery b w)) (Suc k)"
          unfolding res recovery_outcome_def up
          using ih f False True
          by (auto simp: recovery_outcome_def w1_def w2_def delays_append acquisitions_append
                split: if_splits)
        then show ?thesis ..
      next
        case False2: False
        with False req Inl have res: "attemptAutoRecovery b w = (False, w3)"
          by (simp add: attemptAutoRecovery.simps [of b w] w1_def w2_def Let_def)
        from f False False2
        have "recovery_outcome w (fst (attemptAutoRecovery b w))
              (snd (attemptAutoRecovery b w)) 1"
          by (simp add: res recovery_outcome_def w1_def w2_def delays_append acquisitions_append)
        then show ?thesis ..
      qed
    qed
  qed
qed

lemma recovery_outcome_measured:
  assumes "recovery_outcome w r w' k"
  shows "attempts_made w w' = k" and "new_delays w w' = map backoffDelay
         [Suc (recoveryAttempts w) ..< Suc (recoveryAttempts w) + k]"
  using assms by (simp_all add: recovery_outcome_def attempts_made_def new_delays_def)

lemma first_delays:
  assumes "k \<le> 3"
  shows "map backoffDelay [Suc 0 ..< Suc 0 + k] = take k [1000, 2000, 4000]"
proof -
  from assms consider "k = 0" | "k = 1" | "k = 2" | "k = 3" by linarith
  then show ?thesis
    by cases (simp_all add: backoffDelay_def upt_conv_Cons)
qed

text \<open>
  C6. In every recovery procedure, from any state of the service and against any browser,
  the delays waited are non-decreasing and at most 8000 ms; they are the base delay of
  1000 ms doubled per attempt, capped at the ceiling, so 1000, 2000, 4000 when the counter
  starts at zero. The counter is zero after a recovery that succeeded, which has then
  acquired a stream, and a recovery that failed has only counted it up by the attempts
  it made. \<open>requestWebcamPermission\<close> itself resets the counter when it has acquired a
  stream and leaves it alone when it fails.
\<close>

theorem backoff_monotone_then_reset:
  "sorted (new_delays w (snd (attemptAutoRecovery b w))) \<and>
   (\<forall>d \<in> set (new_delays w (snd (attemptAutoRecovery b w))). d \<le> 8000) \<and>
   new_delays w (snd (attemptAutoRecovery b w)) =
     map backoffDelay [Suc (recoveryAttempts w) ..<
       Suc (recoveryAttempts w) + attempts_made w (snd (attemptAutoRecovery b w))] \<and>
   (recoveryAttempts w = 0 \<longrightarrow>
      new_delays w (snd (attemptAutoRecovery b w)) =
        take (attempts_made w (snd (attemptAutoRecovery b w))) [1000, 2000, 4000]) \<and>
   (fst (attemptAutoRecovery b w) \<longrightarrow>
      recoveryAttempts (snd (attemptAutoRecovery b w)) = 0 \<and>
      currentStream (snd (attemptAutoRecovery b w)) \<noteq> None) \<and>
   (\<not> fst (attemptAutoRecovery b w) \<longrightarrow>
      recoveryAttempts (snd (attemptAutoRecovery b w)) =
        recoveryAttempts w + attempts_made w (snd (attemptAutoRecovery b w))) \<and>
   (case requestWebcamPermission b w of
      (Inr s, w1) \<Rightarrow> recoveryAttempts w1 = 0 \<and> currentStream w1 = Some s
    | (Inl e, w1) \<Rightarrow> recoveryAttempts w1 = recoveryAttempts w)"
proof -
  let ?w' = "snd (attemptAutoRecovery b w)"
  from recovery_shape [of w b]
  obtain k where o: "recovery_outcome w (fst (attemptAutoRecovery b w)) ?w' k" ..
  note m = recovery_outcome_measured [OF o]
  have a: "sorted (new_delays w ?w')" unfolding m(2) by (rule sorted_backoff)
  have b: "\<forall>d \<in> set (new_delays w ?w'). d \<le> 8000"
    unfolding m by (auto simp: backoffDelay_le)
  have c: "recoveryAttempts w = 0 \<longrightarrow>
      new_delays w ?w' = take (attempts_made w ?w') [1000, 2000, 4000]"
  proof
    assume z: "recoveryAttempts w = 0"
    with o have "k \<le> 3" by (simp add: recovery_outcome_def MAX_RECOVERY_ATTEMPTS_def)
    from first_delays [OF this] z
    show "new_delays w ?w' = take (attempts_made w ?w') [1000, 2000, 4000]"
      by (simp add: m del: upt_Suc)
  qed
  have d: "fst (attemptAutoRecovery b w) \<longrightarrow>
      recoveryAttempts ?w' = 0 \<and> currentStream ?w' \<noteq> None"
    and e: "\<not> fst (attemptAutoRecovery b w) \<longrightarrow>
      recoveryAttempts ?w' = recoveryAttempts w + attempts_made w ?w'"
    using o by (auto simp: recovery_outcome_def m split: if_splits)
  have f: "case requestWebcamPermission b w of
      (Inr s, w1) \<Rightarrow> recoveryAttempts w1 = 0 \<and> currentStream w1 = Some s
    | (Inl e, w1) \<Rightarrow> recoveryAttempts w1 = recoveryAttempts w"
    by (auto split: prod.splits sum.splits dest: request_failed request_succeeded)
  have g: "new_delays w ?w' = map backoffDelay [Suc (recoveryAttempts w) ..<
       Suc (recoveryAttempts w) + attempts_made w ?w']"
    by (simp add: m del: upt_Suc)
  show ?thesis by (intro conjI; fact)
qed

lemma replugged_run:
  "attemptAutoRecovery replugged connected_webcam =
     (True, \<lparr>currentStream = Some 200, onStreamEndedCallback = True,
        autoRecoveryEnabled = True, recoveryAttempts = 0, gum_calls = 9,
        trace = [GetUserMedia 1, Listen 100,
                 Wait 1000, GetUserMedia 1, GetUserMedia 2, GetUserMedia 3,
                 Wait 2000, GetUserMedia 1, GetUserMedia 2, GetUserMedia 3,
                 Wait 4000, GetUserMedia 1, GetUserMedia 2, Listen 200]\<rparr>)"
  by (simp add: attemptAutoRecovery.simps requestWebcamPermission_def getUserMedia_def
        replugged_def connected_webcam_def backoffDelay_def MAX_RECOVERY_ATTEMPTS_def Let_def)

lemma connected_webcam_trace:
  "delays (trace connected_webcam) = []" "acquisitions (trace connected_webcam) = 1"
  by (simp_all add: connected_webcam_def)

theorem backoff_monotone_then_reset_witness:
  "fst (attemptAutoRecovery replugged connected_webcam) \<and>
   new_delays connected_webcam (snd (attemptAutoRecovery replugged connected_webcam))
     = [1000, 2000, 4000] \<and>
   sorted (new_delays connected_webcam (snd (attemptAutoRecovery replugged connected_webcam))) \<and>
   recoveryAttempts (snd (attemptAutoRecovery replugged connected_webcam)) = 0"
proof -
  have a: "fst (attemptAutoRecovery replugged connected_webcam)"
    and b: "new_delays connected_webcam (snd (attemptAutoRecovery replugged connected_webcam))
              = [1000, 2000, 4000]"
    by (simp_all add: replugged_run new_delays_def connected_webcam_trace)
  note t = backoff_monotone_then_reset [of connected_webcam replugged]
  from t have s: "sorted (new_delays connected_webcam
        (snd (attemptAutoRecovery replugged connected_webcam)))"
    by blast
  from t a have z: "recoveryAttempts (snd (attemptAutoRecovery replugged connected_webcam)) = 0"
    by blast
  from a b s z show ?thesis by blast
qed

lemma all_fail_not_recovered:
  assumes "\<forall>n. isl (b n)"
  shows "\<not> fst (attemptAutoRecovery b w)"
  using assms
proof (induction b w rule: attemptAutoRecovery.induct)
  case (1 b w)
  show ?case
  proof (cases "\<not> autoRecoveryEnabled w \<or> recoveryAttempts w \<ge> MAX_RECOVERY_ATTEMPTS")
    case True
    then show ?thesis by (simp add: attemptAutoRecovery.simps [of b w])
  next
    case False
    define w1 where "w1 = w\<lparr>recoveryAttempts := recoveryAttempts w + 1\<rparr>"
    define w2 where "w2 = w1\<lparr>trace := trace w1 @ [Wait (backoffDelay (recoveryAttempts w1))]\<rparr>"
    obtain r w3 where req: "requestWebcamPermission b w2 = (r, w3)"
      by (cases "requestWebcamPermission b w2")
    from request_all_fail [OF "1.prems", of w2] req obtain e where Inl: "r = Inl e"
      by (cases r) simp_all
    show ?thesis
    proof (cases "recoveryAttempts w3 < MAX_RECOVERY_ATTEMPTS")
      case True
      with False req Inl have res: "attemptAutoRecovery b w = attemptAutoRecovery b w3"
        by (simp add: attemptAutoRecovery.simps [of b w] w1_def w2_def Let_def)
      from "1.IH" [OF False w1_def w2_def req [symmetric] refl Inl True "1.prems"]
      show ?thesis by (simp add: res)
    next
      case False2: False
      with False req Inl show ?thesis
        by (simp add: attemptAutoRecovery.simps [of b w] w1_def w2_def Let_def)
    qed
  qed
qed

lemma unplugged_fails: "\<forall>n. isl (unplugged n)"
  by (simp add: unplugged_def)

lemma on_track_ended_measured:
  "attempts_made w (on_track_ended b w) = attempts_made w (snd (attemptAutoRecovery b w))"
  "new_delays w (on_track_ended b w) = new_delays w (snd (attemptAutoRecovery b w))"
  "recoveryAttempts (on_track_ended b w) = recoveryAttempts (snd (attemptAutoRecovery b w))"
  "autoRecoveryEnabled (on_track_ended b w) = autoRecoveryEnabled (snd (attemptAutoRecovery b w))"
  by (simp_all add: on_track_ended_def attempts_made_def new_delays_def split_def Let_def
        delays_append acquisitions_append)

text \<open>
  C7. After a camera track has ended, the listener's recovery procedure is a total
  function, so it always returns, and it starts at most three re-acquisitions. When every
  request to the browser fails, recovery reports failure; the registered callback is
  called with the message that recovery failed; the counter is not reset, it has been
  counted up by the attempts made (three attempts after delays of 1000, 2000 and 4000 ms
  when it started at zero with recovery enabled); and a further call of the recovery
  procedure returns false at once, whatever the browser would answer now. The callback
  main.js registers dispatches \<open>STREAM_ENDED\<close> with that message, which in the runtime
  view is applied and makes the runtime state \<open>recovering\<close>.
\<close>

theorem recovery_bounded_terminal:
  "attempts_made w (on_track_ended b w) \<le> MAX_RECOVERY_ATTEMPTS \<and>
   ((\<forall>n. isl (b n)) \<longrightarrow>
      \<not> fst (attemptAutoRecovery b w) \<and>
      (onStreamEndedCallback w \<longrightarrow>
         last (trace (on_track_ended b w))
           = Notify ''Camera disconnected and auto-recovery failed'') \<and>
      recoveryAttempts (on_track_ended b w)
        = recoveryAttempts w + attempts_made w (on_track_ended b w) \<and>
      (autoRecoveryEnabled w \<and> recoveryAttempts w = 0 \<longrightarrow>
         attempts_made w (on_track_ended b w) = 3 \<and>
         new_delays w (on_track_ended b w) = [1000, 2000, 4000] \<and>
         recoveryAttempts (on_track_ended b w) = 3) \<and>
      attemptAutoRecovery b2 (on_track_ended b w) = (False, on_track_ended b w)) \<and>
   (viewState (cur sm) = Runtime \<longrightarrow>
      fst (stream_ended_callback ''Camera disconnected and auto-recovery failed'' sm) \<and>
      runtimeState (cur (snd (stream_ended_callback
        ''Camera disconnected and auto-recovery failed'' sm))) = Recovering)"
proof -
  let ?w' = "snd (attemptAutoRecovery b w)"
  from recovery_shape [of w b]
  obtain k where o: "recovery_outcome w (fst (attemptAutoRecovery b w)) ?w' k" ..
  note m = recovery_outcome_measured [OF o]
  have surfaced: "viewState (cur sm) = Runtime \<longrightarrow>
      fst (stream_ended_callback ''Camera disconnected and auto-recovery failed'' sm) \<and>
      runtimeState (cur (snd (stream_ended_callback
        ''Camera disconnected and auto-recovery failed'' sm))) = Recovering"
    by (simp add: stream_ended_callback_def dispatch_def find_transition_cases
          defineTransitions_def stream_ended_action_def Let_def split_def)
  from o have "recoveryAttempts w + k \<le> max (recoveryAttempts w) MAX_RECOVERY_ATTEMPTS"
    by (simp add: recovery_outcome_def)
  then have "k \<le> MAX_RECOVERY_ATTEMPTS" by arith
  then have bound: "attempts_made w (on_track_ended b w) \<le> MAX_RECOVERY_ATTEMPTS"
    by (simp add: on_track_ended_measured m)
  have fail: "\<not> fst (attemptAutoRecovery b w) \<and>
      (onStreamEndedCallback w \<longrightarrow>
         last (trace (on_track_ended b w))
           = Notify ''Camera disconnected and auto-recovery failed'') \<and>
      recoveryAttempts (on_track_ended b w)
        = recoveryAttempts w + attempts_made w (on_track_ended b w) \<and>
      (autoRecoveryEnabled w \<and> recoveryAttempts w = 0 \<longrightarrow>
         attempts_made w (on_track_ended b w) = 3 \<and>
         new_delays w (on_track_ended b w) = [1000, 2000, 4000] \<and>
         recoveryAttempts (on_track_ended b w) = 3) \<and>
      attemptAutoRecovery b2 (on_track_ended b w) = (False, on_track_ended b w)"
    if all: "\<forall>n. isl (b n)"
  proof -
    from all_fail_not_recovered [OF all, of w] have nr: "\<not> fst (attemptAutoRecovery b w)" .
    with o have o': "autoRecoveryEnabled ?w' = autoRecoveryEnabled w"
      "onStreamEndedCallback ?w' = onStreamEndedCallback w"
      "recoveryAttempts ?w' = recoveryAttempts w + k"
      "autoRecoveryEnabled w \<longrightarrow> MAX_RECOVERY_ATTEMPTS \<le> recoveryAttempts ?w'"
      "recoveryAttempts w + k \<le> max (recoveryAttempts w) MAX_RECOVERY_ATTEMPTS"
      by (auto simp: recovery_outcome_def)
    have n: "onStreamEndedCallback w \<longrightarrow>
         last (trace (on_track_ended b w))
           = Notify ''Camera disconnected and auto-recovery failed''"
      using nr o'(2) by (simp add: on_track_ended_def split_def Let_def)
    have three: "attempts_made w (on_track_ended b w) = 3 \<and>
         new_delays w (on_track_ended b w) = [1000, 2000, 4000] \<and>
         recoveryAttempts (on_track_ended b w) = 3"
      if en: "autoRecoveryEnabled w \<and> recoveryAttempts w = 0"
    proof -
      from en o' have "k = 3" by (simp add: MAX_RECOVERY_ATTEMPTS_def)
      with en o'(3) first_delays [of 3] show ?thesis
        by (simp add: on_track_ended_measured m del: upt_Suc)
    qed
    have stop: "attemptAutoRecovery b2 (on_track_ended b w) = (False, on_track_ended b w)"
      using o' by (auto simp: attemptAutoRecovery.simps [of b2 "on_track_ended b w"]
            on_track_ended_measured)
    have cnt: "recoveryAttempts (on_track_ended b w)
        = recoveryAttempts w + attempts_made w (on_track_ended b w)"
      using o'(3) by (simp add: on_track_ended_measured m)
    from nr n cnt three stop show ?thesis by blast
  qed
  from bound fail surfaced show ?thesis by blast
qed

lemma unplugged_run:
  "on_track_ended unplugged connected_webcam =
     \<lparr>currentStream = Some 100, onStreamEndedCallback = True,
        autoRecoveryEnabled = True, recoveryAttempts = 3, gum_calls = 10,
        trace = [GetUserMedia 1, Listen 100,
                 Wait 1000, GetUserMedia 1, GetUserMedia 2, GetUserMedia 3,
                 Wait 2000, GetUserMedia 1, GetUserMedia 2, GetUserMedia 3,
                 Wait 4000, GetUserMedia 1, GetUserMedia 2, GetUserMedia 3,
                 Notify ''Camera disconnected and auto-recovery failed'']\<rparr>"
  by (simp add: on_track_ended_def attemptAutoRecovery.simps requestWebcamPermission_def
        getUserMedia_def unplugged_def connected_webcam_def backoffDelay_def
        MAX_RECOVERY_ATTEMPTS_def Let_def)

theorem recovery_bounded_terminal_witness:
  "onStreamEndedCallback connected_webcam \<and>
   autoRecoveryEnabled connected_webcam \<and> recoveryAttempts connected_webcam = 0 \<and>
   attempts_made connected_webcam (on_track_ended unplugged connected_webcam) = 3 \<and>
   last (trace (on_track_ended unplugged connected_webcam))
     = Notify ''Camera disconnected and auto-recovery failed'' \<and>
   recoveryAttempts (on_track_ended unplugged connected_webcam) = 3 \<and>
   attemptAutoRecovery replugged (on_track_ended unplugged connected_webcam)
     = (False, on_track_ended unplugged connected_webcam) \<and>
   viewState (cur running_machine) = Runtime \<and>
   fst (stream_ended_callback ''Camera disconnected and auto-recovery failed''
     running_machine)"
proof -
  have c: "onStreamEndedCallback connected_webcam" "autoRecoveryEnabled connected_webcam"
    "recoveryAttempts connected_webcam = 0"
    by (simp_all add: connected_webcam_def)
  have v: "viewState (cur running_machine) = Runtime"
    by (simp add: running_machine_def ready_machine_def welcome_machine_def
          booted_machine_def eval_defs)
  from recovery_bounded_terminal [of connected_webcam unplugged replugged running_machine]
       unplugged_fails c v
  show ?thesis by simp
qed

section \<open>Proofs about the inference service\<close>

lemma enter_locked: "inferenceLock s \<Longrightarrow> runInference_enter s c = (Settled (Returned []), s)"
  by (simp add: runInference_enter_def)

lemma enter_unlocked_lock:
  "\<not> inferenceLock s \<Longrightarrow>
     inferenceLock (snd (runInference_enter s c)) = (fst (runInference_enter s c) = Awaiting)"
  by (simp add: runInference_enter_def Let_def)

lemma resume_unlocks: "\<not> inferenceLock (snd (runInference_resume s g))"
  by (simp add: runInference_resume_def split: generation.splits)

lemma loop_step_inv: "loop_inv l \<Longrightarrow> loop_inv (loop_step l e)"
proof (cases e)
  case (Call c)
  assume i: "loop_inv l"
  show ?thesis
  proof (cases "inferenceLock (service l)")
    case True
    with i Call show ?thesis by (simp add: loop_inv_def enter_locked)
  next
    case False
    from enter_unlocked_lock [OF False, of c] i False Call show ?thesis
      by (cases "runInference_enter (service l) c"; cases "fst (runInference_enter (service l) c)")
         (auto simp: loop_inv_def)
  qed
next
  case (Completion g)
  assume i: "loop_inv l"
  with Completion resume_unlocks [of "service l" g] show ?thesis
    by (cases "runInference_resume (service l) g") (auto simp: loop_inv_def)
qed

lemma loop_run_inv: "loop_inv l \<Longrightarrow> loop_inv (loop_run l evs)"
  unfolding loop_run_def
  by (induction evs arbitrary: l) (simp_all add: loop_step_inv)

lemma new_event_loop_inv: "\<not> inferenceLock s \<Longrightarrow> loop_inv (new_event_loop s)"
  by (simp add: loop_inv_def new_event_loop_def)

lemma enter_starts:
  "can_start s c \<Longrightarrow> fst (runInference_enter s c) = Awaiting \<and> inferenceLock (snd (runInference_enter s c))"
  by (auto simp: can_start_def runInference_enter_def Let_def)

text \<open>
  C1, amended. A call that enters while the lock is held returns the empty string at once
  and changes nothing. On any interleaving of entering calls and completing model runs,
  starting with the lock free, at most one call is in flight. When a call that gets as
  far as the model run is followed by a second call before it completes, the second
  settles first, with the empty string; the first settles with what its model run
  produced; so at most one of the two results is a non-empty text, and the lock is free
  again afterwards.
\<close>

theorem single_flight:
  "(inferenceLock s \<longrightarrow> runInference_enter s c = (Settled (Returned []), s)) \<and>
   (\<not> inferenceLock s \<longrightarrow> in_flight (loop_run (new_event_loop s) evs) \<le> 1) \<and>
   (can_start s c \<longrightarrow>
      settled (loop_run (new_event_loop s) [Call c, Call c2, Completion g])
        = [Returned [], fst (runInference_resume (snd (runInference_enter s c)) g)] \<and>
      length (filter nonempty_result
        (settled (loop_run (new_event_loop s) [Call c, Call c2, Completion g]))) \<le> 1 \<and>
      in_flight (loop_run (new_event_loop s) [Call c, Call c2]) = 1 \<and>
      \<not> inferenceLock (service (loop_run (new_event_loop s) [Call c, Call c2, Completion g])))"
proof -
  have a: "inferenceLock s \<longrightarrow> runInference_enter s c = (Settled (Returned []), s)"
    by (simp add: enter_locked)
  have b: "\<not> inferenceLock s \<longrightarrow> in_flight (loop_run (new_event_loop s) evs) \<le> 1"
    using loop_run_inv [OF new_event_loop_inv, of s evs] by (simp add: loop_inv_def)
  have c: "settled (loop_run (new_event_loop s) [Call c, Call c2, Completion g])
        = [Returned [], fst (runInference_resume (snd (runInference_enter s c)) g)] \<and>
      length (filter nonempty_result
        (settled (loop_run (new_event_loop s) [Call c, Call c2, Completion g]))) \<le> 1 \<and>
      in_flight (loop_run (new_event_loop s) [Call c, Call c2]) = 1 \<and>
      \<not> inferenceLock (service (loop_run (new_event_loop s) [Call c, Call c2, Completion g]))"
    if st: "can_start s c"
  proof -
    obtain s1 where e1: "runInference_enter s c = (Awaiting, s1)" and l1: "inferenceLock s1"
      using enter_starts [OF st] by (cases "runInference_enter s c") auto
    obtain r s2 where e3: "runInference_resume s1 g = (r, s2)"
      by (cases "runInference_resume s1 g")
    from resume_unlocks [of s1 g] e3 have u: "\<not> inferenceLock s2" by simp
    show ?thesis
      by (simp add: loop_run_def new_event_loop_def e1 enter_locked [OF l1] e3 u nonempty_result_def)
  qed
  from a b c show ?thesis by blast
qed

theorem single_flight_witness:
  "can_start loaded_VLMService True \<and>
   settled (loop_run (new_event_loop loaded_VLMService)
      [Call True, Call True, Completion (Generated ''A cat.'' [])])
     = [Returned [], Returned ''A cat.''] \<and>
   in_flight (loop_run (new_event_loop loaded_VLMService) [Call True, Call True]) = 1"
proof -
  have st: "can_start loaded_VLMService True"
    by (simp add: can_start_def loaded_VLMService_def new_VLMService_def)
  have r: "fst (runInference_resume (snd (runInference_enter loaded_VLMService True))
            (Generated ''A cat.'' [])) = Returned ''A cat.''"
    by (simp add: runInference_resume_def trim_def is_space_def)
  from single_flight [of loaded_VLMService True "[]" True "Generated ''A cat.'' []"] st r
  show ?thesis by simp
qed

text \<open>
  C1, as the claim states it, fails in its count: of two overlapping calls it need not be
  exactly one that yields a non-empty text. The first call returns the empty string when
  the model run produces no text, and throws when the model run fails; the second has
  returned the empty string in both cases.
\<close>

theorem overlapping_calls_may_both_be_empty:
  "length (filter nonempty_result (settled (loop_run (new_event_loop loaded_VLMService)
      [Call True, Call True, Completion (Generated [] [])]))) = 0 \<and>
   length (filter nonempty_result (settled (loop_run (new_event_loop loaded_VLMService)
      [Call True, Call True, Completion (Generation_failed ''device lost'')]))) = 0"
  by (simp add: loop_run_def new_event_loop_def loaded_VLMService_def new_VLMService_def
        runInference_enter_def runInference_resume_def trim_def nonempty_result_def Let_def)

end
